theory Spec2Isabelle
  imports Complex_Main "HOL-Library.Word" "HOL-Library.Char_ord" "HOL-Library.List_Lexorder"
begin

text \<open>
  A shallow embedding of \<open>shogun/function/_function.py\<close>, the functional prediction core
  of SHOGUN: the parser of the strain-to-function table (\<open>parse_kegg_table\<close>), the
  collapse of the reference matrix to a taxonomic rank (\<open>summarize_at_level\<close>), the
  propagation of a taxatable through the reference (\<open>_create_kegg_table\<close>), the
  module and pathway summaries (\<open>summarize_kegg_table\<close>) and the loading of the reference
  files (\<open>parse_function_db\<close>). Files are given by their parsed rows, numpy arrays and
  pandas frames by lists, the log by the records written to it; library calls are
  modelled by what they return or raise on the values the program passes to them.
\<close>

section \<open>Python values used by \<open>shogun/function/_function.py\<close>\<close>

text \<open>
  Exceptions of the source are values: every \<open>raise\<close> of the interpreter or of a
  library call that the modelled paths can reach is a constructor.
\<close>

datatype py_error = IndexError | ValueError | ZeroDivisionError | FileNotFoundError

text \<open>
  A Python \<open>dict\<close> keeps its keys in insertion order; the order decides the row and
  column numbering below, so a dict is an association list with the newest key last.
  \<open>d.setdefault(k, v)\<close> returns the stored value when \<open>k\<close> is present and stores
  \<open>v\<close> otherwise.
\<close>

type_synonym ('k, 'v) dict = "('k \<times> 'v) list"

definition setdefault :: "('k, 'v) dict \<Rightarrow> 'k \<Rightarrow> 'v \<Rightarrow> ('k, 'v) dict \<times> 'v" where
  "setdefault d k v = (case map_of d k of Some w \<Rightarrow> (d, w) | None \<Rightarrow> (d @ [(k, v)], v))"

text \<open>
  \<open>collections.Counter(xs)\<close>: one pass over \<open>xs\<close>, each element adds one to its
  tally; a new element is appended after the earlier ones.
\<close>

fun counter_incr :: "('k, nat) dict \<Rightarrow> 'k \<Rightarrow> ('k, nat) dict" where
  "counter_incr [] k = [(k, 1)]"
| "counter_incr ((k', c) # d) k =
     (if k' = k then (k', Suc c) # d else (k', c) # counter_incr d k)"

definition Counter :: "'k list \<Rightarrow> ('k, nat) dict" where
  "Counter xs = foldl counter_incr [] xs"

section \<open>The sparse reference matrix\<close>

text \<open>
  \<open>scipy.sparse.csr_matrix\<close> with \<open>dtype=np.int8\<close>: the stored values are signed
  8-bit integers (read with \<open>sint\<close>), row \<open>r\<close> owns the positions
  \<open>indptr[r] ..< indptr[r+1]\<close> of \<open>indices\<close> and \<open>data\<close>.
\<close>

type_synonym int8 = "8 word"

record csr =
  csr_data :: "int8 list"
  csr_indices :: "nat list"
  csr_indptr :: "nat list"
  csr_shape :: "nat \<times> nat"

text \<open>
  \<open>csr_matrix((data, indices, indptr), dtype=np.int8)\<close> with no \<open>shape\<close> argument:
  the values are cast to 8 bits by the caller-supplied conversion, the number of rows is
  \<open>len(indptr) - 1\<close> and the number of columns is \<open>indices.max() + 1\<close>. The maximum
  of an empty array raises, which scipy reports as
  \<open>ValueError('unable to infer matrix dimensions')\<close>.
\<close>

definition csr_matrix :: "int8 list \<Rightarrow> nat list \<Rightarrow> nat list \<Rightarrow> py_error + csr" where
  "csr_matrix data indices indptr =
     (if indices = [] then Inl ValueError
      else Inr \<lparr>csr_data = data, csr_indices = indices, csr_indptr = indptr,
                csr_shape = (length indptr - 1, Max (set indices) + 1)\<rparr>)"

text \<open>
  Conversion of a Python \<open>int\<close> to \<open>np.int8\<close> in the numpy releases that still have
  \<open>np.int\<close> (which the source uses): the value is reduced modulo 256 and read as
  two's complement.
\<close>

definition int8_of_count :: "nat \<Rightarrow> int8" where
  "int8_of_count n = of_nat n"

section \<open>Reference Table Parser: \<open>parse_kegg_table\<close>\<close>

text \<open>
  The file is given as the rows \<open>csv.reader\<close> yields (a list of fields per line; a
  blank line is the empty list, where \<open>line[0]\<close> raises \<open>IndexError\<close>).
\<close>

record parse_state =
  ps_indptr :: "nat list"
  ps_indices :: "nat list"
  ps_kegg_ids :: "(string, nat) dict"
  ps_row_names :: "(string, nat) dict"
  ps_data :: "nat list"

text \<open>The inner loop \<open>for key, value in counts.items()\<close>.\<close>

fun add_counts ::
  "(string, nat) dict \<Rightarrow> nat list \<Rightarrow> nat list \<Rightarrow> (string, nat) dict \<Rightarrow>
   (string, nat) dict \<times> nat list \<times> nat list" where
  "add_counts kegg_ids indices data [] = (kegg_ids, indices, data)"
| "add_counts kegg_ids indices data ((key, value) # counts) =
     (if key \<noteq> [] then
        (case setdefault kegg_ids key (length kegg_ids) of
           (kegg_ids', j) \<Rightarrow> add_counts kegg_ids' (indices @ [j]) (data @ [value]) counts)
      else add_counts kegg_ids indices data counts)"

text \<open>The outer loop \<open>for line in csv_inf\<close>.\<close>

fun parse_lines :: "parse_state \<Rightarrow> string list list \<Rightarrow> py_error + parse_state" where
  "parse_lines st [] = Inr st"
| "parse_lines st ([] # rest) = Inl IndexError"
| "parse_lines st ((name # tokens) # rest) =
     (case setdefault (ps_row_names st) name (length (ps_row_names st)) of
        (row_names, _) \<Rightarrow>
          (case add_counts (ps_kegg_ids st) (ps_indices st) (ps_data st) (Counter tokens) of
             (kegg_ids, indices, data) \<Rightarrow>
               parse_lines
                 \<lparr>ps_indptr = ps_indptr st @ [length indices], ps_indices = indices,
                  ps_kegg_ids = kegg_ids, ps_row_names = row_names, ps_data = data\<rparr>
                 rest))"

definition parse_init :: parse_state where
  "parse_init = \<lparr>ps_indptr = [0], ps_indices = [], ps_kegg_ids = [], ps_row_names = [],
                  ps_data = []\<rparr>"

definition parse_kegg_table ::
  "string list list \<Rightarrow> py_error + ((string, nat) dict \<times> (string, nat) dict \<times> csr)" where
  "parse_kegg_table infile =
     (case parse_lines parse_init infile of
        Inl e \<Rightarrow> Inl e
      | Inr st \<Rightarrow>
          (case csr_matrix (map int8_of_count (ps_data st)) (ps_indices st) (ps_indptr st) of
             Inl e \<Rightarrow> Inl e
           | Inr m \<Rightarrow> Inr (ps_row_names st, ps_kegg_ids st, m)))"

section \<open>Lineage strings\<close>

text \<open>
  \<open>s.split(';')\<close> (an explicit separator: empty fields are kept, the empty string gives
  one empty field), \<open>';'.join(xs)\<close> and \<open>s.replace(' ', '_')\<close>.
\<close>

fun str_split :: "char \<Rightarrow> string \<Rightarrow> string list" where
  "str_split sep [] = [[]]"
| "str_split sep (c # cs) =
     (if c = sep then [] # str_split sep cs
      else (case str_split sep cs of [] \<Rightarrow> [[c]] | w # ws \<Rightarrow> (c # w) # ws))"

fun str_join :: "string \<Rightarrow> string list \<Rightarrow> string" where
  "str_join sep [] = []"
| "str_join sep [x] = x"
| "str_join sep (x # y # ys) = x @ sep @ str_join sep (y # ys)"


text \<open>
  The group key of \<open>summarize_at_level\<close>, \<open>";".join(_.split(';')[:level])\<close>, and the row
  key of \<open>function_run_and_save\<close>, which also replaces every space by an underscore.
\<close>

definition group_key :: "nat \<Rightarrow> string \<Rightarrow> string" where
  "group_key level name = str_join '';'' (take level (str_split CHR '';'' name))"


section \<open>Taxonomic Level Collapser: \<open>summarize_at_level\<close>\<close>

text \<open>
  The stored entries of one row, the value of the matrix at a row and a column (entries
  of a repeated column are added, in 8 bits), and the row as \<open>todense()\<close> gives it.
\<close>

definition csr_row_entries :: "csr \<Rightarrow> nat \<Rightarrow> (nat \<times> int8) list" where
  "csr_row_entries m r =
     (let lo = csr_indptr m ! r; hi = csr_indptr m ! Suc r
      in zip (take (hi - lo) (drop lo (csr_indices m))) (take (hi - lo) (drop lo (csr_data m))))"

definition csr_get :: "csr \<Rightarrow> nat \<Rightarrow> nat \<Rightarrow> int8" where
  "csr_get m r c = sum_list (map snd (filter (\<lambda>e. fst e = c) (csr_row_entries m r)))"

definition dense_row :: "csr \<Rightarrow> nat \<Rightarrow> int8 list" where
  "dense_row m r = map (csr_get m r) [0..<snd (csr_shape m)]"

text \<open>\<open>csr[rows, :].todense()\<close>: a row number outside the matrix raises \<open>IndexError\<close>.\<close>

definition csr_rows_dense :: "csr \<Rightarrow> nat list \<Rightarrow> py_error + int8 list list" where
  "csr_rows_dense m rows =
     (if \<forall>r \<in> set rows. r < fst (csr_shape m) then Inr (map (dense_row m) rows)
      else Inl IndexError)"

text \<open>
  Column \<open>c\<close> of the dense block, the number of its members that are \<open>> 0\<close>, and the test
  \<open>count / _mat.shape[0] > .8\<close>. The source divides in double precision; the quotient of
  two counts and the literal compare as the exact fractions do for every group of fewer
  than \<open>2^50\<close> rows, so the test is written on rationals.
\<close>

definition mat_column :: "int8 list list \<Rightarrow> nat \<Rightarrow> int list" where
  "mat_column mat c = map (\<lambda>row. sint (row ! c)) mat"

definition positive_count :: "int8 list list \<Rightarrow> nat \<Rightarrow> nat" where
  "positive_count mat c = length (filter (\<lambda>v. 0 < v) (mat_column mat c))"

definition mat_thresh :: "int8 list list \<Rightarrow> nat \<Rightarrow> bool" where
  "mat_thresh mat c \<longleftrightarrow> (of_nat (positive_count mat c) / of_nat (length mat) :: rat) > 8 / 10"

text \<open>
  \<open>np.median\<close> of a column: the middle value of the sorted column, or the mean of the two
  middle values (a float). A group always has a member; the empty case is numpy's
  \<open>nan\<close> and is not reached.
\<close>

definition np_median :: "int list \<Rightarrow> rat" where
  "np_median xs =
     (let s = sort xs; n = length s
      in if n = 0 then 0
         else if even n then (of_int (s ! (n div 2 - 1)) + of_int (s ! (n div 2))) / 2
         else of_int (s ! (n div 2)))"

text \<open>Conversion of a float to \<open>np.int8\<close>: the fraction is cut off (towards zero).\<close>

definition int8_of_float :: "rat \<Rightarrow> int8" where
  "int8_of_float q = word_of_int (if 0 \<le> q then \<lfloor>q\<rfloor> else \<lceil>q\<rceil>)"

record collapse_state =
  cs_indptr :: "nat list"
  cs_indices :: "nat list"
  cs_row_names :: "(string, nat) dict"
  cs_data :: "rat list"

text \<open>
  \<open>s.groupby("group")\<close> with pandas' default \<open>sort=True\<close>: the groups come in ascending
  order of their key (Python compares strings by code point, which is the lexicographic
  order on the bytes), each with the positions of its members in \<open>s\<close>.
\<close>

definition groupby :: "string list \<Rightarrow> (string \<times> nat list) list" where
  "groupby keys =
     map (\<lambda>g. (g, filter (\<lambda>i. keys ! i = g) [0..<length keys])) (sort (remdups keys))"

text \<open>The body of \<open>for name, df in s.groupby("group")\<close>.\<close>

definition collapse_group ::
  "csr \<Rightarrow> collapse_state \<Rightarrow> string \<times> nat list \<Rightarrow> py_error + collapse_state" where
  "collapse_group m st grp =
     (case csr_rows_dense m (snd grp) of
        Inl e \<Rightarrow> Inl e
      | Inr mat \<Rightarrow>
          (let kept = filter (mat_thresh mat) [0..<snd (csr_shape m)]
           in if kept \<noteq> [] then
                (let medians = map (\<lambda>c. np_median (mat_column mat c)) kept;
                     indices = cs_indices st @ kept
                 in Inr \<lparr>cs_indptr = cs_indptr st @ [length indices], cs_indices = indices,
                         cs_row_names =
                           fst (setdefault (cs_row_names st) (fst grp) (length (cs_row_names st))),
                         cs_data = cs_data st @ medians\<rparr>)
              else Inr st))"

fun collapse_groups ::
  "csr \<Rightarrow> collapse_state \<Rightarrow> (string \<times> nat list) list \<Rightarrow> py_error + collapse_state" where
  "collapse_groups m st [] = Inr st"
| "collapse_groups m st (grp # grps) =
     (case collapse_group m st grp of
        Inl e \<Rightarrow> Inl e
      | Inr st' \<Rightarrow> collapse_groups m st' grps)"

definition collapse_init :: collapse_state where
  "collapse_init = \<lparr>cs_indptr = [0], cs_indices = [], cs_row_names = [], cs_data = []\<rparr>"

text \<open>
  \<open>sorted(names, key=names.get)\<close> is the labels in ascending order of their row number
  (Python's sort is stable, as \<open>sort_key\<close> is). The frame \<open>s\<close> has the default index
  \<open>0, 1, ...\<close>, so \<open>df.index\<close> holds positions in that sorted list.
\<close>

definition sorted_names :: "(string, nat) dict \<Rightarrow> string list" where
  "sorted_names names = map fst (sort_key snd names)"

definition summarize_at_level ::
  "csr \<Rightarrow> (string, nat) dict \<Rightarrow> (string, nat) dict \<Rightarrow> nat \<Rightarrow>
   py_error + (csr \<times> (string, nat) dict)" where
  "summarize_at_level m names kegg_ids level =
     (case collapse_groups m collapse_init
             (groupby (map (group_key level) (sorted_names names))) of
        Inl e \<Rightarrow> Inl e
      | Inr st \<Rightarrow>
          (case csr_matrix (map int8_of_float (cs_data st)) (cs_indices st) (cs_indptr st) of
             Inl e \<Rightarrow> Inl e
           | Inr out \<Rightarrow> Inr (out, cs_row_names st)))"

section \<open>Data frames\<close>

text \<open>
  A \<open>pandas.DataFrame\<close>: row labels, column labels and one list of cells per row. Every
  frame pandas builds is rectangular (\<open>df_wf\<close>).
\<close>

record 'a dataframe =
  df_index :: "string list"
  df_columns :: "string list"
  df_values :: "'a list list"


text \<open>\<open>df.T\<close>.\<close>

definition df_T :: "'a dataframe \<Rightarrow> 'a dataframe" where
  "df_T df =
     \<lparr>df_index = df_columns df, df_columns = df_index df,
      df_values = map (\<lambda>j. map (\<lambda>row. row ! j) (df_values df)) [0..<length (df_columns df)]\<rparr>"

text \<open>\<open>df[(df.T != 0).any()]\<close>: the rows that have a cell different from zero.\<close>

definition df_any_nonzero :: "('a \<Rightarrow> bool) \<Rightarrow> 'a dataframe \<Rightarrow> 'a dataframe" where
  "df_any_nonzero ne0 df =
     (let kept = filter (\<lambda>r. list_ex ne0 (snd r)) (zip (df_index df) (df_values df))
      in \<lparr>df_index = map fst kept, df_columns = df_columns df, df_values = map snd kept\<rparr>)"

section \<open>Function Propagation Engine: \<open>_create_kegg_table\<close>\<close>

text \<open>The records the function hands to \<open>logger\<close>, with the level of each.\<close>

datatype log_level = DEBUG | WARNING

datatype log_message =
  Kegg_table_shape "nat \<times> nat"
| Taxatable_shape "nat \<times> nat"
| Overlap rat
| Row_names_found nat

text \<open>\<open>kegg_table_csr.getrow(idx).todense()\<close>.\<close>

definition getrow :: "csr \<Rightarrow> nat \<Rightarrow> py_error + int8 list" where
  "getrow m idx = (if idx < fst (csr_shape m) then Inr (dense_row m idx) else Inl IndexError)"

text \<open>
  \<open>np.outer(row, ref)\<close> of a row of the taxatable (one abundance per sample, integers:
  adding a float product into the integer accumulator in place is refused by numpy) and
  a dense reference row; the product is formed in the wide integer type.
\<close>

definition np_outer :: "int list \<Rightarrow> int8 list \<Rightarrow> int list list" where
  "np_outer row ref = map (\<lambda>a. map (\<lambda>r. a * sint r) ref) row"

definition mat_add :: "int list list \<Rightarrow> int list list \<Rightarrow> int list list" where
  "mat_add A B = map2 (map2 (+)) A B"

text \<open>The loop \<open>for i, row in taxatable_df.iterrows()\<close>.\<close>

fun propagate_rows ::
  "(string, nat) dict \<Rightarrow> csr \<Rightarrow> int list list \<Rightarrow> nat \<Rightarrow> (string \<times> int list) list \<Rightarrow>
   py_error + (int list list \<times> nat)" where
  "propagate_rows row_names m kegg_table row_names_found [] =
     Inr (kegg_table, row_names_found)"
| "propagate_rows row_names m kegg_table row_names_found ((name, row) # rest) =
     (case map_of row_names name of
        None \<Rightarrow> propagate_rows row_names m kegg_table row_names_found rest
      | Some idx \<Rightarrow>
          (case getrow m idx of
             Inl e \<Rightarrow> Inl e
           | Inr ref \<Rightarrow>
               propagate_rows row_names m (mat_add kegg_table (np_outer row ref))
                 (Suc row_names_found) rest))"

text \<open>
  The function returns the table; the log records are returned with it. Dividing by
  \<open>num_taxa = 0\<close> raises \<open>ZeroDivisionError\<close>, and the \<open>DataFrame\<close> constructor raises
  \<open>ValueError\<close> when the number of column labels differs from the width of
  \<open>kegg_table\<close>. The comparison \<open>overlap < .5\<close> is exact on the quotient of two counts.
\<close>

definition create_kegg_table ::
  "int dataframe \<Rightarrow> (string, nat) dict \<Rightarrow> (string, nat) dict \<Rightarrow> csr \<Rightarrow>
   py_error + ((log_level \<times> log_message) list \<times> int dataframe)" where
  "create_kegg_table taxatable_df row_names column_names kegg_table_csr =
     (let num_kegg_ids = snd (csr_shape kegg_table_csr);
          num_taxa = length (df_index taxatable_df);
          num_samples = length (df_columns taxatable_df)
      in case propagate_rows row_names kegg_table_csr
                (replicate num_samples (replicate num_kegg_ids 0)) 0
                (zip (df_index taxatable_df) (df_values taxatable_df)) of
           Inl e \<Rightarrow> Inl e
         | Inr (kegg_table, row_names_found) \<Rightarrow>
             if num_taxa = 0 then Inl ZeroDivisionError
             else
               (let overlap = of_nat row_names_found / of_nat num_taxa;
                    log = [(DEBUG, Kegg_table_shape (csr_shape kegg_table_csr)),
                           (DEBUG, Taxatable_shape (num_taxa, num_samples)),
                           (if overlap < 5 / 10 then WARNING else DEBUG, Overlap overlap),
                           (DEBUG, Row_names_found row_names_found)]
                in if length (sorted_names column_names) \<noteq> num_kegg_ids then Inl ValueError
                   else Inr (log,
                     df_any_nonzero (\<lambda>v. v \<noteq> 0)
                       (df_T \<lparr>df_index = df_columns taxatable_df,
                              df_columns = sorted_names column_names,
                              df_values = kegg_table\<rparr>))))"

section \<open>Grouping Summarizer: \<open>summarize_kegg_table\<close>\<close>







section \<open>Membership parsers and \<open>parse_function_db\<close>\<close>

text \<open>
  \<open>s.rstrip()\<close> removes trailing whitespace (the ASCII whitespace characters of
  \<open>str.isspace\<close>; whitespace outside ASCII is not modelled).
\<close>

definition is_space :: "char \<Rightarrow> bool" where
  "is_space c \<longleftrightarrow>
     c \<in> set [CHR '' '', CHR 0x09, CHR 0x0A, CHR 0x0B, CHR 0x0C, CHR 0x0D,
               CHR 0x1C, CHR 0x1D, CHR 0x1E, CHR 0x1F]"

definition rstrip :: "string \<Rightarrow> string" where
  "rstrip s = rev (dropWhile is_space (rev s))"

text \<open>\<open>d[g].update([k])\<close> on a \<open>defaultdict(Counter)\<close>.\<close>

fun nested_update ::
  "(string, (string, nat) dict) dict \<Rightarrow> string \<Rightarrow> string \<Rightarrow> (string, (string, nat) dict) dict" where
  "nested_update [] g k = [(g, counter_incr [] k)]"
| "nested_update ((g', c) # d) g k =
     (if g' = g then (g', counter_incr c k) # d else (g', c) # nested_update d g k)"

text \<open>
  \<open>pd.DataFrame(d).fillna(0.0).astype(int)\<close> for a dict of Counters: one column per
  outer key, one row per inner key (here in the order in which the inner keys are first
  seen; older pandas releases sort them), a missing cell 0.
\<close>

definition first_seen :: "'a list \<Rightarrow> 'a list" where
  "first_seen xs = rev (remdups (rev xs))"

definition frame_of_counters :: "(string, (string, nat) dict) dict \<Rightarrow> int dataframe" where
  "frame_of_counters d =
     (let idx = first_seen (concat (map (\<lambda>e. map fst (snd e)) d))
      in \<lparr>df_index = idx, df_columns = map fst d,
           df_values =
             map (\<lambda>k. map (\<lambda>e. case map_of (snd e) k of Some n \<Rightarrow> int n | None \<Rightarrow> 0) d)
               idx\<rparr>)"

text \<open>The loop of \<open>_parse_modules\<close>: \<open>row[0]\<close> and \<open>row[-1]\<close> raise on an empty row.\<close>

fun parse_modules_rows ::
  "(string, (string, nat) dict) dict \<Rightarrow> string list list \<Rightarrow>
   py_error + (string, (string, nat) dict) dict" where
  "parse_modules_rows modules_keggs [] = Inr modules_keggs"
| "parse_modules_rows modules_keggs ([] # rest) = Inl IndexError"
| "parse_modules_rows modules_keggs ((f # fs) # rest) =
     parse_modules_rows (nested_update modules_keggs (rstrip f) (take 7 (last (f # fs)))) rest"

text \<open>
  The loop of \<open>_parse_pathways\<close>: \<open>row[1]\<close> is read first, \<open>row[4]\<close> only when
  \<open>row[1] == 'Enzymes'\<close>, \<open>row[0]\<close> only when both tests pass.
\<close>

fun parse_pathways_rows ::
  "(string, (string, nat) dict) dict \<Rightarrow> string list list \<Rightarrow>
   py_error + (string, (string, nat) dict) dict" where
  "parse_pathways_rows pathways_keggs [] = Inr pathways_keggs"
| "parse_pathways_rows pathways_keggs (row # rest) =
     (if length row < 2 then Inl IndexError
      else if row ! 1 = ''Enzymes'' then
        (if length row < 5 then Inl IndexError
         else if row ! 4 \<noteq> [] then
           parse_pathways_rows (nested_update pathways_keggs (rstrip (row ! 0)) (row ! 4)) rest
         else parse_pathways_rows pathways_keggs rest)
      else parse_pathways_rows pathways_keggs rest)"

text \<open>
  The file system is a map from a path to the rows \<open>csv.reader\<close> yields for the file;
  \<open>open\<close> of a path that is not there raises \<open>FileNotFoundError\<close>.
\<close>

type_synonym file_system = "string \<Rightarrow> string list list option"

definition parse_modules :: "file_system \<Rightarrow> string \<Rightarrow> py_error + int dataframe" where
  "parse_modules fs infile =
     (case fs infile of
        None \<Rightarrow> Inl FileNotFoundError
      | Some rows \<Rightarrow>
          (case parse_modules_rows [] rows of
             Inl e \<Rightarrow> Inl e
           | Inr modules_keggs \<Rightarrow> Inr (frame_of_counters modules_keggs)))"

definition parse_pathways :: "file_system \<Rightarrow> string \<Rightarrow> py_error + int dataframe" where
  "parse_pathways fs infile =
     (case fs infile of
        None \<Rightarrow> Inl FileNotFoundError
      | Some rows \<Rightarrow>
          (case parse_pathways_rows [] rows of
             Inl e \<Rightarrow> Inl e
           | Inr pathways_keggs \<Rightarrow> Inr (frame_of_counters pathways_keggs)))"

definition parse_kegg_table_file ::
  "file_system \<Rightarrow> string \<Rightarrow> py_error + ((string, nat) dict \<times> (string, nat) dict \<times> csr)" where
  "parse_kegg_table_file fs infile =
     (case fs infile of None \<Rightarrow> Inl FileNotFoundError | Some rows \<Rightarrow> parse_kegg_table rows)"

text \<open>\<open>os.path.join(a, b)\<close> on POSIX.\<close>

definition os_path_join :: "string \<Rightarrow> string \<Rightarrow> string" where
  "os_path_join a b =
     (if b \<noteq> [] \<and> hd b = CHR ''/'' then b
      else if a = [] \<or> last a = CHR ''/'' then a @ b
      else a @ ''/'' @ b)"

text \<open>
  The populated result of \<open>parse_function_db\<close> (a dict with these eight keys); the empty
  dict \<open>{}\<close> is \<open>None\<close>.
\<close>

record function_db =
  db_modules_file :: string
  db_file :: string
  db_pathways_file :: string
  db_names :: "(string, nat) dict"
  db_kegg_ids :: "(string, nat) dict"
  db_csr :: csr
  db_modules :: "int dataframe"
  db_pathways :: "int dataframe"

definition suffices :: "string list" where
  "suffices = [''module-annotations.txt'', ''strain2ko.txt'', ''pathway-annotations.txt'']"

text \<open>
  \<open>glob.glob\<close> is a parameter: the function from a pattern to the paths it returns.
\<close>

definition parse_function_db ::
  "(string \<Rightarrow> string list) \<Rightarrow> file_system \<Rightarrow> (string, string) dict \<Rightarrow> string \<Rightarrow>
   py_error + function_db option" where
  "parse_function_db glob fs metadata database =
     (case map_of metadata ''function'' of
        None \<Rightarrow> Inr None
      | Some func \<Rightarrow>
          (let file_set = set (glob (os_path_join database func @ ''*''));
               files = map (\<lambda>suffix. os_path_join database func @ ''-'' @ suffix) suffices
           in if list_ex (\<lambda>file. file \<notin> file_set) files then Inr None
              else
                (case parse_modules fs (files ! 0) of
                   Inl e \<Rightarrow> Inl e
                 | Inr modules_df \<Rightarrow>
                     (case parse_pathways fs (files ! 2) of
                        Inl e \<Rightarrow> Inl e
                      | Inr pathway_df \<Rightarrow>
                          (case parse_kegg_table_file fs (files ! 1) of
                             Inl e \<Rightarrow> Inl e
                           | Inr (row_names, kegg_ids, m) \<Rightarrow>
                               Inr (Some
                                 \<lparr>db_modules_file = files ! 0, db_file = files ! 1,
                                  db_pathways_file = files ! 2, db_names = row_names,
                                  db_kegg_ids = kegg_ids, db_csr = m,
                                  db_modules = modules_df,
                                  db_pathways = pathway_df\<rparr>))))))"

text \<open>
  A model of \<open>glob.glob\<close> for a pattern \<open>prefix*\<close> without other wildcard characters over a
  flat directory listing: the listed paths that start with the prefix.
\<close>

definition glob_listing :: "string list \<Rightarrow> string \<Rightarrow> string list" where
  "glob_listing listing pattern =
     filter (\<lambda>p. take (length pattern - 1) p = butlast pattern) listing"

section \<open>Notions used in the statements\<close>


text \<open>
  For the statements about the propagation: the taxatable rows whose label is a key of
  \<open>row_names\<close> (with the reference row each is mapped to), the abundance-weighted sum of
  one function over those rows, and the total of a reference row.
\<close>

fun matched_rows :: "(string, nat) dict \<Rightarrow> (string \<times> int list) list \<Rightarrow> (nat \<times> int list) list" where
  "matched_rows row_names [] = []"
| "matched_rows row_names ((name, row) # rest) =
     (case map_of row_names name of
        None \<Rightarrow> matched_rows row_names rest
      | Some idx \<Rightarrow> (idx, row) # matched_rows row_names rest)"



text \<open>
  For the statements about the collapse: the dense block of a group, the columns it keeps
  and their medians (as the loop body computes them), the groups that keep a column, and
  the entries of a row of the state under construction.
\<close>

definition group_block :: "csr \<Rightarrow> nat list \<Rightarrow> int8 list list" where
  "group_block m rows = map (dense_row m) rows"

definition group_cols :: "csr \<Rightarrow> nat list \<Rightarrow> nat list" where
  "group_cols m rows = filter (mat_thresh (group_block m rows)) [0..<snd (csr_shape m)]"

definition group_medians :: "csr \<Rightarrow> nat list \<Rightarrow> rat list" where
  "group_medians m rows =
     map (\<lambda>c. np_median (mat_column (group_block m rows) c)) (group_cols m rows)"

definition retained :: "csr \<Rightarrow> (string \<times> nat list) list \<Rightarrow> (string \<times> nat list) list" where
  "retained m groups = filter (\<lambda>g. group_cols m (snd g) \<noteq> []) groups"

definition st_entries :: "collapse_state \<Rightarrow> nat \<Rightarrow> (nat \<times> rat) list" where
  "st_entries st i =
     (let lo = cs_indptr st ! i; hi = cs_indptr st ! Suc i
      in zip (take (hi - lo) (drop lo (cs_indices st))) (take (hi - lo) (drop lo (cs_data st))))"

definition st_inv :: "collapse_state \<Rightarrow> bool" where
  "st_inv st \<longleftrightarrow>
     sorted (cs_indptr st) \<and> cs_indptr st \<noteq> [] \<and>
     last (cs_indptr st) = length (cs_indices st) \<and>
     length (cs_data st) = length (cs_indices st) \<and>
     Suc (length (cs_row_names st)) = length (cs_indptr st) \<and>
     map snd (cs_row_names st) = [0..<length (cs_row_names st)]"

text \<open>The groups of the reference at a level, as \<open>summarize_at_level\<close> walks them.\<close>

definition level_groups :: "(string, nat) dict \<Rightarrow> nat \<Rightarrow> (string \<times> nat list) list" where
  "level_groups names level = groupby (map (group_key level) (sorted_names names))"

text \<open>
  The number of members of a group whose count in a column is not zero: the reading of
  "presence" by value rather than by the comparison \<open>_mat > 0\<close> of the source.
\<close>

definition nonzero_count :: "int8 list list \<Rightarrow> nat \<Rightarrow> nat" where
  "nonzero_count mat c = length (filter (\<lambda>v. v \<noteq> 0) (mat_column mat c))"



section \<open>Example inputs\<close>

text \<open>
  A reference matrix of two strains over three functions
  (\<open>[[5, 1, 0], [7, 0, 1]]\<close>) and a taxatable of three taxa in two samples.
\<close>

definition example_csr :: csr where
  "example_csr =
     \<lparr>csr_data = [5, 1, 7, 1], csr_indices = [0, 1, 0, 2], csr_indptr = [0, 2, 4],
      csr_shape = (2, 3)\<rparr>"


text \<open>
  Five strains of one genus over two functions: the first function is annotated in four of
  the five strains, the second in all five.
\<close>

definition example_five_csr :: csr where
  "example_five_csr =
     \<lparr>csr_data = [1, 1, 1, 1, 1, 1, 1, 1, 1], csr_indices = [0, 1, 0, 1, 0, 1, 0, 1, 1],
      csr_indptr = [0, 2, 4, 6, 8, 9], csr_shape = (5, 2)\<rparr>"

definition example_five_names :: "(string, nat) dict" where
  "example_five_names =
     [(''G;s1'', 0), (''G;s2'', 1), (''G;s3'', 2), (''G;s4'', 3), (''G;s5'', 4)]"

section \<open>Properties of the Reference Table Parser\<close>













text \<open>
  The shape of the parser's result in general: one matrix row per line of the file, one
  entry of \<open>row_names\<close> per distinct label.
\<close>

lemma setdefault_keys:
  "fst ` set (fst (setdefault d k v)) = insert k (fst ` set d)"
proof (cases "map_of d k")
  case None
  then show ?thesis by (simp add: setdefault_def)
next
  case (Some w)
  then have "(k, w) \<in> set d" by (rule map_of_SomeD)
  then have "k \<in> fst ` set d" by force
  with Some show ?thesis by (auto simp: setdefault_def)
qed

lemma setdefault_distinct:
  "distinct (map fst d) \<Longrightarrow> distinct (map fst (fst (setdefault d k v)))"
  by (auto simp: setdefault_def map_of_eq_None_iff split: option.splits)

lemma parse_lines_rows:
  assumes "parse_lines st infile = Inr st'" and "distinct (map fst (ps_row_names st))"
  shows "length (ps_indptr st') = length (ps_indptr st) + length infile \<and>
         fst ` set (ps_row_names st') = fst ` set (ps_row_names st) \<union> hd ` set infile \<and>
         distinct (map fst (ps_row_names st'))"
  using assms
proof (induction st infile rule: parse_lines.induct)
  case (1 st)
  then show ?case by simp
next
  case (2 st rest)
  then show ?case by simp
next
  case (3 st name tokens rest)
  obtain row_names x where s:
    "setdefault (ps_row_names st) name (length (ps_row_names st)) = (row_names, x)"
    by (cases "setdefault (ps_row_names st) name (length (ps_row_names st))")
  obtain kegg_ids indices data where a:
    "add_counts (ps_kegg_ids st) (ps_indices st) (ps_data st) (Counter tokens) =
     (kegg_ids, indices, data)"
    by (cases "add_counts (ps_kegg_ids st) (ps_indices st) (ps_data st) (Counter tokens)")
  let ?st = "\<lparr>ps_indptr = ps_indptr st @ [length indices], ps_indices = indices,
                  ps_kegg_ids = kegg_ids, ps_row_names = row_names, ps_data = data\<rparr>"
  from "3.prems"(1) s a have r: "parse_lines ?st rest = Inr st'" by simp
  have keys: "fst ` set row_names = insert name (fst ` set (ps_row_names st))"
    using setdefault_keys [of "ps_row_names st" name "length (ps_row_names st)"] s by simp
  have d: "distinct (map fst (ps_row_names ?st))"
    using setdefault_distinct [OF "3.prems"(2), of name "length (ps_row_names st)"] s by simp
  from "3.IH" [OF s [symmetric] a [symmetric] refl r d] keys
  show ?case by auto
qed

lemma parse_kegg_table_rows:
  assumes "parse_kegg_table infile = Inr (row_names, kegg_ids, m)"
  shows "fst (csr_shape m) = length infile" and "length row_names = card (hd ` set infile)"
proof -
  from assms obtain st where st: "parse_lines parse_init infile = Inr st"
    and m: "csr_matrix (map int8_of_count (ps_data st)) (ps_indices st) (ps_indptr st) = Inr m"
    and rn: "row_names = ps_row_names st"
    by (auto simp: parse_kegg_table_def split: sum.splits)
  from parse_lines_rows [OF st] have len: "length (ps_indptr st) = Suc (length infile)"
    and keys: "fst ` set (ps_row_names st) = hd ` set infile"
    and d: "distinct (map fst (ps_row_names st))"
    by (simp_all add: parse_init_def)
  from m len show "fst (csr_shape m) = length infile"
    by (auto simp: csr_matrix_def split: if_splits)
  from d have "length (map fst row_names) = card (set (map fst row_names))"
    unfolding rn by (rule distinct_card [symmetric])
  with keys show "length row_names = card (hd ` set infile)"
    by (simp add: rn)
qed

text \<open>
  Claim C5: the number of rows of the parsed matrix against the number of distinct taxon
  labels. \<open>row_names\<close> gets a new entry only for a new label, but \<open>indptr\<close> grows with
  every line: a file that repeats a label gives a matrix of three rows for two labels,
  and the label \<open>B\<close> of the third line is mapped to row 1, the second line's data.
\<close>

theorem parse_kegg_table_repeated_label:
  "parse_kegg_table [[''A'', ''K1''], [''A'', ''K2''], [''B'', ''K3'']] =
     Inr ([(''A'', 0), (''B'', 1)], [(''K1'', 0), (''K2'', 1), (''K3'', 2)],
          \<lparr>csr_data = [1, 1, 1], csr_indices = [0, 1, 2], csr_indptr = [0, 1, 2, 3],
             csr_shape = (3, 3)\<rparr>)"
  by code_simp

section \<open>Properties of the Function Propagation Engine\<close>

lemma length_dense_row [simp]: "length (dense_row m r) = snd (csr_shape m)"
  by (simp add: dense_row_def)










text \<open>
  The overlap diagnostic when the function returns: the taxatable has a row, the overlap is
  the number of rows found in \<open>row_names\<close> over the number of rows, it lies between 0 and
  1, and it is logged at \<open>WARNING\<close> exactly when it is below one half.
\<close>

lemma propagate_rows_found:
  "propagate_rows rn m kt found rows = Inr (kt', found') \<Longrightarrow>
   found' = found + length (matched_rows rn rows)"
  by (induction rn m kt found rows rule: propagate_rows.induct)
     (auto split: option.splits sum.splits)

lemma matched_rows_length: "length (matched_rows rn rows) \<le> length rows"
  by (induction rn rows rule: matched_rows.induct) (auto split: option.splits)

lemma create_kegg_table_overlap:
  assumes "create_kegg_table taxatable_df row_names column_names m = Inr (logs, out)"
    and "overlap = (of_nat (length (matched_rows row_names
                      (zip (df_index taxatable_df) (df_values taxatable_df)))) :: rat) /
                   of_nat (length (df_index taxatable_df))"
  shows "df_index taxatable_df \<noteq> []" and "0 \<le> overlap" and "overlap \<le> 1"
    and "logs ! 2 = (if overlap < 1 / 2 then WARNING else DEBUG, Overlap overlap)"
proof -
  let ?rows = "zip (df_index taxatable_df) (df_values taxatable_df)"
  from assms(1) obtain kt found where
    run: "propagate_rows row_names m
            (replicate (length (df_columns taxatable_df)) (replicate (snd (csr_shape m)) 0)) 0
            ?rows = Inr (kt, found)"
    by (auto simp: create_kegg_table_def Let_def split: sum.splits)
  from propagate_rows_found [OF run] have found: "found = length (matched_rows row_names ?rows)"
    by simp
  from assms(1) run show ne: "df_index taxatable_df \<noteq> []"
    by (auto simp: create_kegg_table_def Let_def split: if_splits)
  show "0 \<le> overlap" by (simp add: assms(2))
  have "length (matched_rows row_names ?rows) \<le> length ?rows"
    by (rule matched_rows_length)
  also have "\<dots> \<le> length (df_index taxatable_df)" by simp
  finally have "(of_nat (length (matched_rows row_names ?rows)) :: rat) \<le>
                of_nat (length (df_index taxatable_df))"
    by (simp only: of_nat_le_iff)
  with ne show "overlap \<le> 1" by (simp add: assms(2) divide_le_eq_1)
  from assms(1) run ne show
    "logs ! 2 = (if overlap < 1 / 2 then WARNING else DEBUG, Overlap overlap)"
    by (auto simp: create_kegg_table_def Let_def found assms(2) split: if_splits)
qed

text \<open>
  When the function returns: the taxatable has a row, every row found in \<open>row_names\<close> is
  mapped to a row of the matrix, and there is one column label per column of the matrix.
\<close>

lemma propagate_rows_returns:
  assumes "\<forall>e \<in> set (matched_rows rn rows). fst e < fst (csr_shape m)"
  shows "\<exists>kt' found'. propagate_rows rn m kt found rows = Inr (kt', found')"
  using assms
proof (induction rn m kt found rows rule: propagate_rows.induct)
  case (1 row_names m kegg_table row_names_found)
  then show ?case by simp
next
  case (2 row_names m kegg_table row_names_found name row rest)
  show ?case
  proof (cases "map_of row_names name")
    case None
    with 2 show ?thesis by simp
  next
    case (Some idx)
    with "2.prems" have "idx < fst (csr_shape m)" by simp
    then have g: "getrow m idx = Inr (dense_row m idx)" by (simp add: getrow_def)
    from "2.prems" Some have "\<forall>e \<in> set (matched_rows row_names rest). fst e < fst (csr_shape m)"
      by simp
    from "2.IH"(2) [OF Some g this] Some g show ?thesis by simp
  qed
qed

lemma create_kegg_table_returns:
  assumes "df_index taxatable_df \<noteq> []"
    and "\<forall>e \<in> set (matched_rows row_names
            (zip (df_index taxatable_df) (df_values taxatable_df))). fst e < fst (csr_shape m)"
    and "length column_names = snd (csr_shape m)"
  shows "\<exists>logs out. create_kegg_table taxatable_df row_names column_names m = Inr (logs, out)"
proof -
  from propagate_rows_returns [OF assms(2)] obtain kt found where
    "propagate_rows row_names m
       (replicate (length (df_columns taxatable_df)) (replicate (snd (csr_shape m)) 0)) 0
       (zip (df_index taxatable_df) (df_values taxatable_df)) = Inr (kt, found)"
    by blast
  with assms(1,3) show ?thesis
    by (simp add: create_kegg_table_def Let_def sorted_names_def)
qed

text \<open>
  Claim C8: the overlap diagnostic never aborts. For a taxatable without rows
  \<open>num_taxa\<close> is 0 and \<open>float(row_names_found) / num_taxa\<close> raises
  \<open>ZeroDivisionError\<close>: no table is returned.
\<close>

theorem create_kegg_table_no_rows:
  "create_kegg_table \<lparr>df_index = [], df_columns = [''x'', ''y''], df_values = []\<rparr>
     [(''G;s1'', 0), (''G;s2'', 1)] [(''K1'', 0), (''K2'', 1), (''K3'', 2)] example_csr =
   Inl ZeroDivisionError"
  by code_simp

section \<open>Properties of the Taxonomic Level Collapser\<close>

lemma collapse_group_Inr:
  assumes "collapse_group m st grp = Inr st'"
  shows "(\<forall>r \<in> set (snd grp). r < fst (csr_shape m)) \<and>
         st' = (if group_cols m (snd grp) \<noteq> [] then
                  \<lparr>cs_indptr = cs_indptr st @
                     [length (cs_indices st) + length (group_cols m (snd grp))],
                   cs_indices = cs_indices st @ group_cols m (snd grp),
                   cs_row_names =
                     fst (setdefault (cs_row_names st) (fst grp) (length (cs_row_names st))),
                   cs_data = cs_data st @ group_medians m (snd grp)\<rparr>
                else st)"
  using assms
  by (auto simp: collapse_group_def csr_rows_dense_def group_cols_def group_medians_def
      group_block_def Let_def split: if_splits sum.splits)

lemma sorted_nth_le_last:
  assumes "sorted (xs :: nat list)" and "i < length xs"
  shows "xs ! i \<le> last xs"
proof -
  have "xs \<noteq> []" using assms(2) by auto
  then have "last xs = xs ! (length xs - 1)" by (rule last_conv_nth)
  moreover have "xs ! i \<le> xs ! (length xs - 1)"
    using assms by (intro sorted_nth_mono) auto
  ultimately show ?thesis by simp
qed

lemma take_drop_append_left:
  assumes "lo \<le> hi" and "hi \<le> length xs"
  shows "take (hi - lo) (drop lo (xs @ ys)) = take (hi - lo) (drop lo xs)"
  using assms by simp

lemma st_append:
  assumes inv: "st_inv st" and len: "length cols = length meds"
    and new: "name \<notin> fst ` set (cs_row_names st)"
    and st1: "st1 = \<lparr>cs_indptr = cs_indptr st @ [length (cs_indices st) + length cols],
                     cs_indices = cs_indices st @ cols,
                     cs_row_names =
                       fst (setdefault (cs_row_names st) name (length (cs_row_names st))),
                     cs_data = cs_data st @ meds\<rparr>"
  shows "st_inv st1"
    and "cs_row_names st1 = cs_row_names st @ [(name, length (cs_row_names st))]"
    and "\<forall>i < length (cs_row_names st). st_entries st1 i = st_entries st i"
    and "st_entries st1 (length (cs_row_names st)) = zip cols meds"
proof -
  let ?n = "length (cs_row_names st)"
  from inv have sorted: "sorted (cs_indptr st)" and ne: "cs_indptr st \<noteq> []"
    and last: "last (cs_indptr st) = length (cs_indices st)"
    and dlen: "length (cs_data st) = length (cs_indices st)"
    and plen: "Suc ?n = length (cs_indptr st)"
    and nums: "map snd (cs_row_names st) = [0..<?n]"
    by (simp_all add: st_inv_def)
  from new have "map_of (cs_row_names st) name = None"
    by (simp add: map_of_eq_None_iff)
  then show rn: "cs_row_names st1 = cs_row_names st @ [(name, ?n)]"
    by (simp add: st1 setdefault_def)
  have le_last: "x \<le> length (cs_indices st)" if "x \<in> set (cs_indptr st)" for x
  proof -
    from that obtain i where "i < length (cs_indptr st)" "x = cs_indptr st ! i"
      by (auto simp: in_set_conv_nth)
    with sorted_nth_le_last [OF sorted] last show ?thesis by auto
  qed
  have "sorted (cs_indptr st @ [length (cs_indices st) + length cols])"
    using sorted le_last by (fastforce simp: sorted_append intro: trans_le_add1)
  moreover have "map snd (cs_row_names st1) = [0..<length (cs_row_names st1)]"
    using nums by (simp add: rn)
  moreover have "Suc (length (cs_row_names st1)) = length (cs_indptr st1)"
    using plen by (simp add: rn) (simp add: st1)
  moreover have "last (cs_indptr st1) = length (cs_indices st1)"
    "length (cs_data st1) = length (cs_indices st1)" "cs_indptr st1 \<noteq> []"
    "cs_indptr st1 = cs_indptr st @ [length (cs_indices st) + length cols]"
    using dlen len by (simp_all add: st1)
  ultimately show "st_inv st1"
    by (simp add: st_inv_def)
  show "\<forall>i < ?n. st_entries st1 i = st_entries st i"
  proof (intro allI impI)
    fix i assume i: "i < ?n"
    with plen have i1: "i < length (cs_indptr st)" and i2: "Suc i < length (cs_indptr st)"
      by simp_all
    let ?lo = "cs_indptr st ! i" and ?hi = "cs_indptr st ! Suc i"
    have lohi: "?lo \<le> ?hi" using sorted i2 by (intro sorted_nth_mono) auto
    have hi: "?hi \<le> length (cs_indices st)" using le_last i2 by simp
    have hi': "?hi \<le> length (cs_data st)" using hi dlen by simp
    have e1: "cs_indptr st1 ! i = ?lo" "cs_indptr st1 ! Suc i = ?hi"
      using i1 i2 by (simp_all add: st1 nth_append)
    have ind1: "cs_indices st1 = cs_indices st @ cols" and dat1: "cs_data st1 = cs_data st @ meds"
      by (simp_all add: st1)
    have t1: "take (?hi - ?lo) (drop ?lo (cs_indices st1)) = take (?hi - ?lo) (drop ?lo (cs_indices st))"
      by (simp only: ind1 take_drop_append_left [OF lohi hi])
    have t2: "take (?hi - ?lo) (drop ?lo (cs_data st1)) = take (?hi - ?lo) (drop ?lo (cs_data st))"
      by (simp only: dat1 take_drop_append_left [OF lohi hi'])
    show "st_entries st1 i = st_entries st i"
      by (simp only: st_entries_def Let_def e1 t1 t2)
  qed
  have n: "?n = length (cs_indptr st) - 1" using plen by arith
  have lastn: "cs_indptr st ! ?n = length (cs_indices st)"
    using last last_conv_nth [OF ne] by (simp add: n)
  have lt: "?n < length (cs_indptr st)" using plen by arith
  have f1: "cs_indptr st1 ! ?n = length (cs_indices st)"
    using lt lastn by (simp add: st1 nth_append)
  have f2: "cs_indptr st1 ! Suc ?n = length (cs_indices st) + length cols"
    using plen by (simp add: st1 nth_append)
  show "st_entries st1 ?n = zip cols meds"
    unfolding st_entries_def Let_def f1 f2 using dlen len by (simp add: st1)
qed

lemma collapse_groups_Inr:
  assumes "collapse_groups m st groups = Inr st'" and "st_inv st"
    and "distinct (map fst groups)"
    and "fst ` set groups \<inter> fst ` set (cs_row_names st) = {}"
  shows "st_inv st' \<and>
         map fst (cs_row_names st') = map fst (cs_row_names st) @ map fst (retained m groups) \<and>
         (\<forall>i < length (cs_row_names st). st_entries st' i = st_entries st i) \<and>
         (\<forall>k < length (retained m groups).
            st_entries st' (length (cs_row_names st) + k) =
              zip (group_cols m (snd (retained m groups ! k)))
                  (group_medians m (snd (retained m groups ! k)))) \<and>
         (\<forall>g \<in> set groups. \<forall>r \<in> set (snd g). r < fst (csr_shape m))"
  using assms
proof (induction groups arbitrary: st)
  case Nil
  then show ?case by (simp add: retained_def)
next
  case (Cons grp groups)
  from Cons.prems(1) obtain st1 where g1: "collapse_group m st grp = Inr st1"
    and rest: "collapse_groups m st1 groups = Inr st'"
    by (auto split: sum.splits)
  note c1 = collapse_group_Inr [OF g1]
  from c1 have range1: "\<forall>r \<in> set (snd grp). r < fst (csr_shape m)" by simp
  let ?n = "length (cs_row_names st)"
  show ?case
  proof (cases "group_cols m (snd grp) = []")
    case True
    with c1 have "st1 = st" by simp
    moreover have "retained m (grp # groups) = retained m groups"
      using True by (simp add: retained_def)
    moreover from Cons.prems have "distinct (map fst groups)"
      "fst ` set groups \<inter> fst ` set (cs_row_names st) = {}" by auto
    ultimately show ?thesis
      using Cons.IH [of st] rest Cons.prems(2) range1 by simp
  next
    case False
    let ?cols = "group_cols m (snd grp)" and ?meds = "group_medians m (snd grp)"
    from False c1 have st1: "st1 =
        \<lparr>cs_indptr = cs_indptr st @ [length (cs_indices st) + length ?cols],
         cs_indices = cs_indices st @ ?cols,
         cs_row_names = fst (setdefault (cs_row_names st) (fst grp) ?n),
         cs_data = cs_data st @ ?meds\<rparr>" by simp
    have len: "length ?cols = length ?meds" by (simp add: group_medians_def)
    from Cons.prems(4) have new: "fst grp \<notin> fst ` set (cs_row_names st)" by auto
    note a = st_append [OF Cons.prems(2) len new st1]
    have ret: "retained m (grp # groups) = grp # retained m groups"
      using False by (simp add: retained_def)
    from Cons.prems(3) have d: "distinct (map fst groups)" and
      notin: "fst grp \<notin> fst ` set groups" by auto
    have disj: "fst ` set groups \<inter> fst ` set (cs_row_names st1) = {}"
      using Cons.prems(4) notin by (auto simp: a(2))
    note ih = Cons.IH [OF rest a(1) d disj]
    have n1: "length (cs_row_names st1) = Suc ?n" by (simp add: a(2))
    have keys: "map fst (cs_row_names st') =
                map fst (cs_row_names st) @ map fst (retained m (grp # groups))"
      using ih by (simp add: a(2) ret)
    have old: "\<forall>i < ?n. st_entries st' i = st_entries st i"
      using ih a(3) n1 by simp
    have new_rows: "st_entries st' (?n + k) =
              zip (group_cols m (snd (retained m (grp # groups) ! k)))
                  (group_medians m (snd (retained m (grp # groups) ! k)))"
      if k: "k < length (retained m (grp # groups))" for k
    proof (cases k)
      case 0
      have "st_entries st' ?n = st_entries st1 ?n" using ih n1 by simp
      with 0 a(4) show ?thesis by (simp add: ret)
    next
      case (Suc k')
      with k have "k' < length (retained m groups)" by (simp add: ret)
      with ih have "st_entries st' (length (cs_row_names st1) + k') =
              zip (group_cols m (snd (retained m groups ! k')))
                  (group_medians m (snd (retained m groups ! k')))" by blast
      with Suc show ?thesis by (simp add: ret n1)
    qed
    from ih keys old new_rows range1 show ?thesis by simp
  qed
qed

lemma groupby_keys: "map fst (groupby keys) = sort (remdups keys)"
  by (simp add: groupby_def comp_def)

lemma groupby_member:
  assumes "(g, rows) \<in> set (groupby keys)"
  shows "g \<in> set keys" and "rows = filter (\<lambda>i. keys ! i = g) [0..<length keys]"
    and "rows \<noteq> []"
proof -
  from assms show g: "g \<in> set keys" and r: "rows = filter (\<lambda>i. keys ! i = g) [0..<length keys]"
    by (auto simp: groupby_def)
  from g obtain i where "i < length keys" "keys ! i = g" by (auto simp: in_set_conv_nth)
  then have "i \<in> set (filter (\<lambda>i. keys ! i = g) [0..<length keys])" by simp
  then have "filter (\<lambda>i. keys ! i = g) [0..<length keys] \<noteq> []" by (metis empty_iff empty_set)
  with r show "rows \<noteq> []" by simp
qed

lemma csr_matrix_Inr:
  assumes "csr_matrix data indices indptr = Inr out"
  shows "out = \<lparr>csr_data = data, csr_indices = indices, csr_indptr = indptr,
                csr_shape = (length indptr - 1, Max (set indices) + 1)\<rparr>"
  using assms by (auto simp: csr_matrix_def split: if_splits)

text \<open>
  What \<open>summarize_at_level\<close> returns, when it returns: the groups that keep a column, in
  the order of the walk, numbered from 0; row \<open>i\<close> of the matrix holds the kept columns of
  the \<open>i\<close>-th such group with their medians converted to 8 bits.
\<close>

lemma summarize_at_level_Inr:
  assumes "summarize_at_level m names kegg_ids level = Inr (out, rn)"
    and "R = retained m (level_groups names level)"
  shows "rn = zip (map fst R) [0..<length R]"
    and "fst (csr_shape out) = length R"
    and "\<forall>i < length R. csr_row_entries out i =
           zip (group_cols m (snd (R ! i))) (map int8_of_float (group_medians m (snd (R ! i))))"
    and "\<forall>g \<in> set (level_groups names level). \<forall>r \<in> set (snd g). r < fst (csr_shape m)"
proof -
  let ?groups = "level_groups names level"
  from assms(1) obtain st where run: "collapse_groups m collapse_init ?groups = Inr st"
    and mk: "csr_matrix (map int8_of_float (cs_data st)) (cs_indices st) (cs_indptr st) = Inr out"
    and rn: "rn = cs_row_names st"
    by (auto simp: summarize_at_level_def level_groups_def split: sum.splits)
  have inv0: "st_inv collapse_init" by (simp add: st_inv_def collapse_init_def)
  have d: "distinct (map fst ?groups)" by (simp add: level_groups_def groupby_keys)
  have e: "fst ` set ?groups \<inter> fst ` set (cs_row_names collapse_init) = {}"
    by (simp add: collapse_init_def)
  note c = collapse_groups_Inr [OF run inv0 d e, folded assms(2)]
  from c have inv: "st_inv st" and keys: "map fst (cs_row_names st) = map fst R"
    and rows: "\<forall>k < length R. st_entries st k =
                 zip (group_cols m (snd (R ! k))) (group_medians m (snd (R ! k)))"
    by (simp_all add: collapse_init_def)
  from c show "\<forall>g \<in> set ?groups. \<forall>r \<in> set (snd g). r < fst (csr_shape m)" by blast
  from keys have lenR: "length (cs_row_names st) = length R"
    by (metis length_map)
  from inv have nums: "map snd (cs_row_names st) = [0..<length (cs_row_names st)]"
    and plen: "Suc (length (cs_row_names st)) = length (cs_indptr st)"
    by (simp_all add: st_inv_def)
  have "cs_row_names st = zip (map fst (cs_row_names st)) (map snd (cs_row_names st))"
    by (simp add: zip_map_fst_snd)
  with keys nums lenR show "rn = zip (map fst R) [0..<length R]" by (simp add: rn)
  note o = csr_matrix_Inr [OF mk]
  from o plen lenR show "fst (csr_shape out) = length R" by simp
  show "\<forall>i < length R. csr_row_entries out i =
           zip (group_cols m (snd (R ! i))) (map int8_of_float (group_medians m (snd (R ! i))))"
  proof (intro allI impI)
    fix i assume i: "i < length R"
    have "csr_row_entries out i = map (\<lambda>e. (fst e, int8_of_float (snd e))) (st_entries st i)"
      by (simp add: o csr_row_entries_def st_entries_def Let_def zip_map2 take_map drop_map
          case_prod_unfold)
    with rows i show "csr_row_entries out i =
           zip (group_cols m (snd (R ! i))) (map int8_of_float (group_medians m (snd (R ! i))))"
      by (simp add: zip_map2 case_prod_unfold)
  qed
qed

lemma retained_keys_sorted: "sorted_wrt (<) (map fst (retained m (level_groups names level)))"
proof -
  let ?groups = "level_groups names level"
  have "sorted_wrt (<) (map fst ?groups)"
    by (simp add: level_groups_def groupby_keys strict_sorted_iff)
  then have "sorted_wrt (\<lambda>a b. fst a < fst b) ?groups"
    by (simp add: sorted_wrt_map)
  then have "sorted_wrt (\<lambda>a b. fst a < fst b) (retained m ?groups)"
    unfolding retained_def by (rule sorted_wrt_filter)
  then show ?thesis by (simp add: sorted_wrt_map)
qed


lemma map_of_zip_upt:
  assumes "distinct ks"
  shows "map_of (zip ks [0..<length ks]) k = Some i \<longleftrightarrow> i < length ks \<and> ks ! i = k"
proof
  assume "map_of (zip ks [0..<length ks]) k = Some i"
  then have "(k, i) \<in> set (zip ks [0..<length ks])" by (rule map_of_SomeD)
  then show "i < length ks \<and> ks ! i = k"
    by (auto simp: set_zip)
next
  assume a: "i < length ks \<and> ks ! i = k"
  then have "(k, i) \<in> set (zip ks [0..<length ks])"
    by (auto simp: set_zip intro!: exI [of _ i])
  moreover have "distinct (map fst (zip ks [0..<length ks]))"
    using assms by simp
  ultimately show "map_of (zip ks [0..<length ks]) k = Some i"
    by (rule map_of_is_SomeI [rotated])
qed

text \<open>
  A group of the reference and its row in the result: the group has a row exactly when it
  keeps a column, and then the row holds its kept columns.
\<close>

lemma summarize_at_level_group:
  assumes run: "summarize_at_level m names kegg_ids level = Inr (out, rn)"
    and grp: "(g, rows) \<in> set (level_groups names level)"
  shows "group_cols m rows = [] \<Longrightarrow> map_of rn g = None"
    and "group_cols m rows \<noteq> [] \<Longrightarrow>
           \<exists>i. map_of rn g = Some i \<and>
               csr_row_entries out i =
                 zip (group_cols m rows) (map int8_of_float (group_medians m rows))"
    and "map_of rn g = Some i \<Longrightarrow>
           group_cols m rows \<noteq> [] \<and>
           csr_row_entries out i =
             zip (group_cols m rows) (map int8_of_float (group_medians m rows))"
proof -
  let ?groups = "level_groups names level"
  let ?R = "retained m ?groups"
  note s = summarize_at_level_Inr [OF run refl]
  have dg: "distinct (map fst ?groups)" by (simp add: level_groups_def groupby_keys)
  have dR: "distinct (map fst ?R)"
    using retained_keys_sorted [of m names level] by (simp add: strict_sorted_iff)
  have uniq: "e = (g, rows)" if "e \<in> set ?groups" "fst e = g" for e
    using eq_key_imp_eq_value [OF dg, of g "snd e" rows] that grp by (cases e) auto
  have at: "?R ! i = (g, rows) \<and> group_cols m rows \<noteq> []"
    if "i < length ?R" "fst (?R ! i) = g" for i
  proof -
    from that(1) have "?R ! i \<in> set ?R" by simp
    then have "?R ! i \<in> set ?groups" "group_cols m (snd (?R ! i)) \<noteq> []"
      by (simp_all add: retained_def)
    with uniq [of "?R ! i"] that(2) show ?thesis by simp
  qed
  have rn_some: "map_of rn g = Some i \<longleftrightarrow> i < length ?R \<and> fst (?R ! i) = g" for i
    using map_of_zip_upt [OF dR, of g i] by (auto simp: s(1))
  show "map_of rn g = None" if "group_cols m rows = []"
  proof (rule ccontr)
    assume "map_of rn g \<noteq> None"
    then obtain i where "map_of rn g = Some i" by auto
    with rn_some at that show False by blast
  qed
  show "\<exists>i. map_of rn g = Some i \<and>
           csr_row_entries out i = zip (group_cols m rows) (map int8_of_float (group_medians m rows))"
    if "group_cols m rows \<noteq> []"
  proof -
    from grp that have "(g, rows) \<in> set ?R" by (simp add: retained_def)
    then obtain i where i: "i < length ?R" "?R ! i = (g, rows)"
      by (auto simp: in_set_conv_nth)
    then have "map_of rn g = Some i" by (simp add: rn_some)
    moreover from s(3) i have "csr_row_entries out i =
        zip (group_cols m rows) (map int8_of_float (group_medians m rows))" by auto
    ultimately show ?thesis by blast
  qed
  show "group_cols m rows \<noteq> [] \<and>
        csr_row_entries out i = zip (group_cols m rows) (map int8_of_float (group_medians m rows))"
    if "map_of rn g = Some i"
  proof -
    from that rn_some have i: "i < length ?R" "fst (?R ! i) = g" by simp_all
    from at [OF i] s(3) i(1) show ?thesis by auto
  qed
qed

text \<open>
  When \<open>summarize_at_level\<close> returns: the matrix has a row for every label, and some group
  keeps a column (otherwise the constructor of the result cannot infer a shape).
\<close>

lemma collapse_groups_returns:
  assumes "\<forall>g \<in> set groups. \<forall>r \<in> set (snd g). r < fst (csr_shape m)"
  shows "\<exists>st'. collapse_groups m st groups = Inr st'"
  using assms
proof (induction groups arbitrary: st)
  case Nil
  then show ?case by simp
next
  case (Cons grp groups)
  then have "\<forall>r \<in> set (snd grp). r < fst (csr_shape m)" by simp
  then have "\<exists>st1. collapse_group m st grp = Inr st1"
    by (simp add: collapse_group_def csr_rows_dense_def Let_def)
  then obtain st1 where "collapse_group m st grp = Inr st1" by blast
  moreover from Cons obtain st' where "collapse_groups m st1 groups = Inr st'"
    by fastforce
  ultimately show ?case by auto
qed

lemma level_groups_rows:
  assumes "g \<in> set (level_groups names level)" and "r \<in> set (snd g)"
  shows "r < length names"
proof -
  obtain k rows where g: "g = (k, rows)" by (cases g)
  from assms(1) have "rows = filter (\<lambda>i. map (group_key level) (sorted_names names) ! i = k)
                              [0..<length (map (group_key level) (sorted_names names))]"
    unfolding g level_groups_def by (rule groupby_member(2))
  with assms(2) g show ?thesis by (simp add: sorted_names_def)
qed

lemma summarize_at_level_returns:
  assumes "length names \<le> fst (csr_shape m)"
    and "retained m (level_groups names level) \<noteq> []"
  shows "\<exists>out rn. summarize_at_level m names kegg_ids level = Inr (out, rn)"
proof -
  let ?groups = "level_groups names level"
  have "\<forall>g \<in> set ?groups. \<forall>r \<in> set (snd g). r < fst (csr_shape m)"
    using level_groups_rows [of _ names level] assms(1) by fastforce
  from collapse_groups_returns [OF this] obtain st where
    run: "collapse_groups m collapse_init ?groups = Inr st" by blast
  have inv0: "st_inv collapse_init" by (simp add: st_inv_def collapse_init_def)
  have d: "distinct (map fst ?groups)" by (simp add: level_groups_def groupby_keys)
  have e: "fst ` set ?groups \<inter> fst ` set (cs_row_names collapse_init) = {}"
    by (simp add: collapse_init_def)
  note c = collapse_groups_Inr [OF run inv0 d e]
  let ?g = "retained m ?groups ! 0"
  from assms(2) have pos: "0 < length (retained m ?groups)" by simp
  then have "?g \<in> set (retained m ?groups)" by (rule nth_mem)
  then have cols: "group_cols m (snd ?g) \<noteq> []" by (simp add: retained_def)
  from c pos have "st_entries st 0 = zip (group_cols m (snd ?g)) (group_medians m (snd ?g))"
    by (simp add: collapse_init_def)
  with cols have "st_entries st 0 \<noteq> []"
    by (simp add: group_medians_def zip_eq_Nil_iff)
  then have "cs_indices st \<noteq> []"
    by (auto simp: st_entries_def Let_def)
  with run show ?thesis
    by (simp add: summarize_at_level_def level_groups_def csr_matrix_def)
qed

text \<open>
  Claim C7, as the code has it. The rows of the collapsed matrix follow the groups in
  ascending order of their key (the order in which \<open>groupby\<close> yields them), not the order
  in which the groups are first met among the strain rows; the groups that keep a column
  are numbered \<open>0, 1, ...\<close> in that order, one matrix row each.
\<close>

theorem summarize_at_level_row_order:
  assumes "summarize_at_level m names kegg_ids level = Inr (out, rn)"
  shows "sorted_wrt (<) (map fst rn) \<and> map snd rn = [0..<length rn] \<and>
         fst (csr_shape out) = length rn \<and>
         map fst rn = map fst (retained m (level_groups names level))"
proof -
  note s = summarize_at_level_Inr [OF assms refl]
  have "map fst rn = map fst (retained m (level_groups names level))"
    and "map snd rn = [0..<length rn]" and "length rn = length (retained m (level_groups names level))"
    by (simp_all add: s(1))
  with s(2) retained_keys_sorted [of m names level] show ?thesis by simp
qed

theorem summarize_at_level_row_order_witness:
  "summarize_at_level
     \<lparr>csr_data = [1, 1], csr_indices = [0, 1], csr_indptr = [0, 1, 2], csr_shape = (2, 2)\<rparr>
     [(''B;x'', 0), (''A;y'', 1)] [(''K1'', 0), (''K2'', 1)] 1 =
   Inr (\<lparr>csr_data = [1, 1], csr_indices = [1, 0], csr_indptr = [0, 1, 2], csr_shape = (2, 2)\<rparr>,
        [(''A'', 0), (''B'', 1)]) \<and>
   sorted_wrt (<) [''A'', ''B''] \<and>
   map snd [(''A'', 0 :: nat), (''B'', 1)] = [0..<length [(''A'', 0 :: nat), (''B'', 1)]]"
proof -
  have run: "summarize_at_level
     \<lparr>csr_data = [1, 1], csr_indices = [0, 1], csr_indptr = [0, 1, 2], csr_shape = (2, 2)\<rparr>
     [(''B;x'', 0), (''A;y'', 1)] [(''K1'', 0), (''K2'', 1)] 1 =
   Inr (\<lparr>csr_data = [1, 1], csr_indices = [1, 0], csr_indptr = [0, 1, 2], csr_shape = (2, 2)\<rparr>,
        [(''A'', 0), (''B'', 1)])"
    by code_simp
  note t = summarize_at_level_row_order [OF run]
  from t have "sorted_wrt (<) (map fst [(''A'', 0 :: nat), (''B'', 1)])"
    by (rule conjunct1)
  then have a: "sorted_wrt (<) [''A'', ''B'']" by simp
  from t have b: "map snd [(''A'', 0 :: nat), (''B'', 1)] = [0..<length [(''A'', 0 :: nat), (''B'', 1)]]"
    by blast
  from run a b show ?thesis by blast
qed

text \<open>
  The claim as written (rows in the order in which the groups are first met) fails: the
  strain rows sorted by row number give the groups \<open>B\<close>, \<open>A\<close>, and the collapsed matrix
  has \<open>A\<close> as row 0 and \<open>B\<close> as row 1.
\<close>

theorem summarize_at_level_not_first_met:
  "map (group_key 1) (sorted_names [(''B;x'', 0), (''A;y'', 1)]) = [''B'', ''A''] \<and>
   summarize_at_level
     \<lparr>csr_data = [1, 1], csr_indices = [0, 1], csr_indptr = [0, 1, 2], csr_shape = (2, 2)\<rparr>
     [(''B;x'', 0), (''A;y'', 1)] [(''K1'', 0), (''K2'', 1)] 1 =
   Inr (\<lparr>csr_data = [1, 1], csr_indices = [1, 0], csr_indptr = [0, 1, 2], csr_shape = (2, 2)\<rparr>,
        [(''A'', 0), (''B'', 1)])"
  by code_simp

lemma positive_count_le: "positive_count mat c \<le> length mat"
  by (simp add: positive_count_def mat_column_def)

lemma mat_thresh_iff: "mat_thresh mat c \<longleftrightarrow> 4 * length mat < 5 * positive_count mat c"
proof (cases "length mat = 0")
  case True
  then show ?thesis by (simp add: mat_thresh_def positive_count_def mat_column_def)
next
  case False
  then have n: "(0 :: rat) < of_nat (length mat)" by simp
  have "mat_thresh mat c \<longleftrightarrow>
        (8 :: rat) * of_nat (length mat) < 10 * of_nat (positive_count mat c)"
    using n by (simp add: mat_thresh_def field_simps)
  also have "\<dots> \<longleftrightarrow> (of_nat (8 * length mat) :: rat) < of_nat (10 * positive_count mat c)"
    by simp
  also have "\<dots> \<longleftrightarrow> 8 * length mat < 10 * positive_count mat c"
    by (rule of_nat_less_iff)
  also have "\<dots> \<longleftrightarrow> 4 * length mat < 5 * positive_count mat c"
    by arith
  finally show ?thesis .
qed

lemma set_group_cols:
  "c \<in> set (group_cols m rows) \<longleftrightarrow> c < snd (csr_shape m) \<and> mat_thresh (group_block m rows) c"
  by (auto simp: group_cols_def)

text \<open>
  Claim C2, as the code has it. A function column is retained in a group's collapsed row
  if and only if the fraction of the group's members whose count in that column is
  strictly positive (the source's \<open>_mat > 0\<close>) is strictly greater than 0.8; a group in
  which no column passes has no row in the result. Where no member of the group has a
  negative count in the column, the members with a strictly positive count are the
  members with a nonzero count.
\<close>

theorem summarize_at_level_threshold:
  assumes "summarize_at_level m names kegg_ids level = Inr (out, rn)"
    and "(g, rows) \<in> set (level_groups names level)"
    and "c < snd (csr_shape m)"
  shows "((\<exists>i. map_of rn g = Some i \<and> c \<in> fst ` set (csr_row_entries out i)) \<longleftrightarrow>
          (of_nat (positive_count (group_block m rows) c) :: rat) / of_nat (length rows) > 8 / 10) \<and>
         ((\<forall>c' < snd (csr_shape m).
             \<not> (of_nat (positive_count (group_block m rows) c') :: rat) / of_nat (length rows)
                  > 8 / 10) \<longrightarrow>
          map_of rn g = None) \<and>
         ((\<forall>r \<in> set rows. 0 \<le> sint (csr_get m r c)) \<longrightarrow>
          positive_count (group_block m rows) c = nonzero_count (group_block m rows) c)"
proof -
  note grp = summarize_at_level_group [OF assms(1,2)]
  have th: "mat_thresh (group_block m rows) c' \<longleftrightarrow>
            (of_nat (positive_count (group_block m rows) c') :: rat) / of_nat (length rows) > 8 / 10"
    for c'
    by (simp add: mat_thresh_def group_block_def)
  have fsts: "fst ` set (zip (group_cols m rows) (map int8_of_float (group_medians m rows))) =
              set (group_cols m rows)"
    by (metis length_map group_medians_def list.set_map map_fst_zip)
  have "(\<exists>i. map_of rn g = Some i \<and> c \<in> fst ` set (csr_row_entries out i)) \<longleftrightarrow>
        mat_thresh (group_block m rows) c"
  proof
    assume "\<exists>i. map_of rn g = Some i \<and> c \<in> fst ` set (csr_row_entries out i)"
    then obtain i where i: "map_of rn g = Some i" and c: "c \<in> fst ` set (csr_row_entries out i)"
      by blast
    from grp(3) [OF i] c fsts have "c \<in> set (group_cols m rows)" by simp
    then show "mat_thresh (group_block m rows) c" by (simp add: set_group_cols)
  next
    assume t: "mat_thresh (group_block m rows) c"
    with assms(3) have c: "c \<in> set (group_cols m rows)" by (simp add: set_group_cols)
    then have "group_cols m rows \<noteq> []" by auto
    from grp(2) [OF this] obtain i where i: "map_of rn g = Some i"
      and e: "csr_row_entries out i =
              zip (group_cols m rows) (map int8_of_float (group_medians m rows))"
      by blast
    from c e fsts have "c \<in> fst ` set (csr_row_entries out i)" by simp
    with i show "\<exists>i. map_of rn g = Some i \<and> c \<in> fst ` set (csr_row_entries out i)" by blast
  qed
  then have first: "(\<exists>i. map_of rn g = Some i \<and> c \<in> fst ` set (csr_row_entries out i)) \<longleftrightarrow>
          (of_nat (positive_count (group_block m rows) c) :: rat) / of_nat (length rows) > 8 / 10"
    by (simp only: th)
  have second: "map_of rn g = None"
    if "\<forall>c' < snd (csr_shape m).
          \<not> (of_nat (positive_count (group_block m rows) c') :: rat) / of_nat (length rows) > 8 / 10"
  proof -
    from that have "\<forall>c' < snd (csr_shape m). \<not> mat_thresh (group_block m rows) c'"
      by (simp only: th)
    then have "group_cols m rows = []"
      by (auto simp: group_cols_def filter_empty_conv)
    then show ?thesis by (rule grp(1))
  qed
  have third: "positive_count (group_block m rows) c = nonzero_count (group_block m rows) c"
    if nn: "\<forall>r \<in> set rows. 0 \<le> sint (csr_get m r c)"
  proof -
    have "filter (\<lambda>v. 0 < v) (map (\<lambda>r. sint (csr_get m r c)) rows) =
          filter (\<lambda>v. v \<noteq> 0) (map (\<lambda>r. sint (csr_get m r c)) rows)"
      using nn by (intro filter_cong refl) auto
    moreover have "mat_column (group_block m rows) c = map (\<lambda>r. sint (csr_get m r c)) rows"
      using assms(3) by (simp add: mat_column_def group_block_def dense_row_def)
    ultimately show ?thesis
      by (simp add: positive_count_def nonzero_count_def)
  qed
  from first second third show ?thesis by blast
qed

theorem summarize_at_level_threshold_witness:
  "summarize_at_level example_five_csr example_five_names [(''K1'', 0), (''K2'', 1)] 1 =
     Inr (\<lparr>csr_data = [1], csr_indices = [1], csr_indptr = [0, 1], csr_shape = (1, 2)\<rparr>,
          [(''G'', 0)]) \<and>
   level_groups example_five_names 1 = [(''G'', [0, 1, 2, 3, 4])] \<and>
   positive_count (group_block example_five_csr [0, 1, 2, 3, 4]) 0 = 4 \<and>
   positive_count (group_block example_five_csr [0, 1, 2, 3, 4]) 1 = 5 \<and>
   \<not> (\<exists>i. map_of [(''G'', 0)] ''G'' = Some i \<and>
          0 \<in> fst ` set (csr_row_entries
            \<lparr>csr_data = [1], csr_indices = [1], csr_indptr = [0, 1], csr_shape = (1, 2)\<rparr> i)) \<and>
   (\<exists>i. map_of [(''G'', 0)] ''G'' = Some i \<and>
          1 \<in> fst ` set (csr_row_entries
            \<lparr>csr_data = [1], csr_indices = [1], csr_indptr = [0, 1], csr_shape = (1, 2)\<rparr> i))"
proof -
  have run: "summarize_at_level example_five_csr example_five_names [(''K1'', 0), (''K2'', 1)] 1 =
     Inr (\<lparr>csr_data = [1], csr_indices = [1], csr_indptr = [0, 1], csr_shape = (1, 2)\<rparr>,
          [(''G'', 0)])"
    by code_simp
  have groups: "level_groups example_five_names 1 = [(''G'', [0, 1, 2, 3, 4])]"
    by code_simp
  then have grp: "(''G'', [0, 1, 2, 3, 4]) \<in> set (level_groups example_five_names 1)"
    by simp
  have p0: "positive_count (group_block example_five_csr [0, 1, 2, 3, 4]) 0 = 4"
    and p1: "positive_count (group_block example_five_csr [0, 1, 2, 3, 4]) 1 = 5"
    by code_simp+
  have c0: "0 < snd (csr_shape example_five_csr)" and c1: "1 < snd (csr_shape example_five_csr)"
    by (simp_all add: example_five_csr_def)
  note t0 = summarize_at_level_threshold [OF run grp c0, THEN conjunct1]
  note t1 = summarize_at_level_threshold [OF run grp c1, THEN conjunct1]
  have n0: "\<not> (\<exists>i. map_of [(''G'', 0)] ''G'' = Some i \<and>
          0 \<in> fst ` set (csr_row_entries
            \<lparr>csr_data = [1], csr_indices = [1], csr_indptr = [0, 1], csr_shape = (1, 2)\<rparr> i))"
    using t0 p0 by simp
  have n1: "\<exists>i. map_of [(''G'', 0)] ''G'' = Some i \<and>
          1 \<in> fst ` set (csr_row_entries
            \<lparr>csr_data = [1], csr_indices = [1], csr_indptr = [0, 1], csr_shape = (1, 2)\<rparr> i)"
    using t1 p1 by simp
  from run groups p0 p1 n0 n1 show ?thesis by blast
qed

text \<open>
  The claim as written counts the members with a nonzero count. A stored count can be
  negative (a tally of 128 wraps to \<open>-128\<close>): in a group of one member whose row is
  \<open>[-128, 1]\<close> the first column is nonzero in 1 of 1 members, and only the second
  column is retained.
\<close>

theorem summarize_at_level_negative_count:
  "summarize_at_level
     \<lparr>csr_data = [- 128, 1], csr_indices = [0, 1], csr_indptr = [0, 2], csr_shape = (1, 2)\<rparr>
     [(''A;x'', 0)] [(''K1'', 0), (''K2'', 1)] 1 =
     Inr (\<lparr>csr_data = [1], csr_indices = [1], csr_indptr = [0, 1], csr_shape = (1, 2)\<rparr>,
          [(''A'', 0)]) \<and>
   level_groups [(''A;x'', 0)] 1 = [(''A'', [0])] \<and>
   group_block
     \<lparr>csr_data = [- 128, 1], csr_indices = [0, 1], csr_indptr = [0, 2], csr_shape = (1, 2)\<rparr>
     [0] = [[- 128, 1]] \<and>
   nonzero_count [[- 128, 1]] 0 = 1 \<and> positive_count [[- 128, 1]] 0 = 0"
  by code_simp

lemma dense_row_nth: "c < snd (csr_shape m) \<Longrightarrow> dense_row m r ! c = csr_get m r c"
  by (simp add: dense_row_def)

lemma np_median_single: "np_median [x] = of_int x"
  by (simp add: np_median_def)

lemma int8_of_float_of_int: "int8_of_float (of_int x) = word_of_int x"
  by (simp add: int8_of_float_def)

lemma int8_of_float_sint: "int8_of_float (signed v) = v"
proof -
  have "int8_of_float (of_int (sint v)) = word_of_int (sint v)"
    by (rule int8_of_float_of_int)
  then show ?thesis by simp
qed

lemma single_group_cols:
  "group_cols m [r] = filter (\<lambda>c. 0 < sint (csr_get m r c)) [0..<snd (csr_shape m)]"
  unfolding group_cols_def
proof (rule filter_cong [OF refl])
  fix c assume "c \<in> set [0..<snd (csr_shape m)]"
  then have c: "c < snd (csr_shape m)" by simp
  show "mat_thresh (group_block m [r]) c \<longleftrightarrow> 0 < sint (csr_get m r c)"
    by (simp add: mat_thresh_def positive_count_def mat_column_def group_block_def
        dense_row_nth [OF c])
qed

lemma single_group_medians:
  "map int8_of_float (group_medians m [r]) = map (csr_get m r) (group_cols m [r])"
proof -
  have "int8_of_float (np_median (mat_column (group_block m [r]) c)) = csr_get m r c"
    if "c \<in> set (group_cols m [r])" for c
  proof -
    from that have "c < snd (csr_shape m)" by (simp add: group_cols_def)
    then show ?thesis
      by (simp add: mat_column_def group_block_def np_median_single int8_of_float_sint
          dense_row_nth)
  qed
  then show ?thesis by (simp add: group_medians_def)
qed

lemma sum_entries_at:
  assumes "distinct cols"
  shows "sum_list (map snd (filter (\<lambda>e. fst e = c) (zip cols (map f cols)))) =
         (if c \<in> set cols then f c else (0 :: int8))"
  using assms
proof (induction cols)
  case Nil
  then show ?case by simp
next
  case (Cons a cols)
  have none: "filter (\<lambda>e. fst e = a) (zip cols (map f cols)) = []" if "a \<notin> set cols"
    using that by (auto simp: filter_empty_conv dest: set_zip_leftD)
  from Cons show ?case by (auto simp: none)
qed

text \<open>
  Claim C6, as the code has it. A group of exactly one strain row has a collapsed row
  when the strain row has a strictly positive entry, and none otherwise. The collapsed
  row keeps exactly the strictly positive entries of the strain row, with their values
  (the fraction of a column is 0 or 1 and the median of one value is that value), and is
  zero elsewhere; so it equals the strain row whenever no entry of that is negative and
  one is positive.
\<close>

theorem summarize_at_level_single_member:
  assumes "summarize_at_level m names kegg_ids level = Inr (out, rn)"
    and "(g, [r]) \<in> set (level_groups names level)"
  shows "(if \<exists>c < snd (csr_shape m). 0 < sint (csr_get m r c)
          then \<exists>i. map_of rn g = Some i \<and>
                 (\<forall>c. csr_get out i c =
                    (if c < snd (csr_shape m) \<and> 0 < sint (csr_get m r c)
                     then csr_get m r c else 0))
          else map_of rn g = None) \<and>
         ((\<forall>c < snd (csr_shape m). 0 \<le> sint (csr_get m r c)) \<and>
          (\<exists>c < snd (csr_shape m). 0 < sint (csr_get m r c)) \<longrightarrow>
          (\<exists>i. map_of rn g = Some i \<and>
             (\<forall>c < snd (csr_shape m). csr_get out i c = csr_get m r c)))"
proof -
  let ?nk = "snd (csr_shape m)"
  let ?cols = "group_cols m [r]"
  note grp = summarize_at_level_group [OF assms]
  have cols: "c \<in> set ?cols \<longleftrightarrow> c < ?nk \<and> 0 < sint (csr_get m r c)" for c
    by (simp add: single_group_cols)
  have d: "distinct ?cols" by (simp add: single_group_cols)
  have some: "\<exists>i. map_of rn g = Some i \<and>
                 (\<forall>c. csr_get out i c =
                    (if c < ?nk \<and> 0 < sint (csr_get m r c) then csr_get m r c else 0))"
    if "\<exists>c < ?nk. 0 < sint (csr_get m r c)"
  proof -
    from that cols have "?cols \<noteq> []" by (metis empty_iff empty_set)
    from grp(2) [OF this] obtain i where i: "map_of rn g = Some i"
      and e: "csr_row_entries out i = zip ?cols (map (csr_get m r) ?cols)"
      by (auto simp: single_group_medians)
    have "csr_get out i c = (if c < ?nk \<and> 0 < sint (csr_get m r c) then csr_get m r c else 0)"
      for c
      unfolding csr_get_def [of out] e using sum_entries_at [OF d, of c "csr_get m r"]
      by (simp add: cols)
    with i show ?thesis by blast
  qed
  have none: "map_of rn g = None" if "\<not> (\<exists>c < ?nk. 0 < sint (csr_get m r c))"
  proof -
    from that have "?cols = []" by (simp add: single_group_cols filter_empty_conv)
    then show ?thesis by (rule grp(1))
  qed
  have same: "\<exists>i. map_of rn g = Some i \<and> (\<forall>c < ?nk. csr_get out i c = csr_get m r c)"
    if nn: "\<forall>c < ?nk. 0 \<le> sint (csr_get m r c)" and ex: "\<exists>c < ?nk. 0 < sint (csr_get m r c)"
  proof -
    from some [OF ex] obtain i where i: "map_of rn g = Some i"
      and v: "\<And>c. csr_get out i c =
                (if c < ?nk \<and> 0 < sint (csr_get m r c) then csr_get m r c else 0)"
      by blast
    have "csr_get out i c = csr_get m r c" if c: "c < ?nk" for c
    proof (cases "0 < sint (csr_get m r c)")
      case True
      with v [of c] c show ?thesis by simp
    next
      case False
      with nn c have "sint (csr_get m r c) = 0" by force
      then have "csr_get m r c = 0" by (simp add: signed_eq_0_iff)
      with v [of c] show ?thesis by simp
    qed
    with i show ?thesis by blast
  qed
  from some none same show ?thesis by auto
qed

theorem summarize_at_level_single_member_witness:
  "summarize_at_level example_csr [(''G;s1'', 0), (''H;s2'', 1)]
     [(''K1'', 0), (''K2'', 1), (''K3'', 2)] 1 =
     Inr (\<lparr>csr_data = [5, 1, 7, 1], csr_indices = [0, 1, 0, 2], csr_indptr = [0, 2, 4],
            csr_shape = (2, 3)\<rparr>,
          [(''G'', 0), (''H'', 1)]) \<and>
   level_groups [(''G;s1'', 0), (''H;s2'', 1)] 1 = [(''G'', [0]), (''H'', [1])] \<and>
   (\<exists>i. map_of [(''G'', 0), (''H'', 1)] ''H'' = Some i \<and>
      (\<forall>c < snd (csr_shape example_csr).
         csr_get \<lparr>csr_data = [5, 1, 7, 1], csr_indices = [0, 1, 0, 2], csr_indptr = [0, 2, 4],
                   csr_shape = (2, 3)\<rparr> i c =
         csr_get example_csr 1 c))"
proof -
  have run: "summarize_at_level example_csr [(''G;s1'', 0), (''H;s2'', 1)]
     [(''K1'', 0), (''K2'', 1), (''K3'', 2)] 1 =
     Inr (\<lparr>csr_data = [5, 1, 7, 1], csr_indices = [0, 1, 0, 2], csr_indptr = [0, 2, 4],
            csr_shape = (2, 3)\<rparr>,
          [(''G'', 0), (''H'', 1)])"
    by code_simp
  have groups: "level_groups [(''G;s1'', 0), (''H;s2'', 1)] 1 = [(''G'', [0]), (''H'', [1])]"
    by code_simp
  then have grp: "(''H'', [1]) \<in> set (level_groups [(''G;s1'', 0), (''H;s2'', 1)] 1)"
    by simp
  have v: "sint (csr_get example_csr 1 0) = 7"
    by code_simp
  have n: "snd (csr_shape example_csr) = 3" by (simp add: example_csr_def)
  have "list_all (\<lambda>c. 0 \<le> sint (csr_get example_csr 1 c)) [0..<3]"
    by code_simp
  then have nn: "\<forall>c < snd (csr_shape example_csr). 0 \<le> sint (csr_get example_csr 1 c)"
    by (simp add: list_all_iff n)
  have ex: "\<exists>c < snd (csr_shape example_csr). 0 < sint (csr_get example_csr 1 c)"
    using v n by (intro exI [of _ 0]) simp
  from summarize_at_level_single_member [OF run grp, THEN conjunct2, rule_format, OF conjI, OF nn ex]
    run groups
  show ?thesis by blast
qed

text \<open>
  The claim as written (every group of one strain row yields a row equal to it) fails:
  the strain row of \<open>A\<close> has no entry and \<open>A\<close> gets no row at all, and the strain row of
  \<open>B\<close> is \<open>[-128, 1]\<close> while its collapsed row holds only the second column.
\<close>

theorem summarize_at_level_single_member_dropped:
  "level_groups [(''A;x'', 0), (''B;y'', 1)] 1 = [(''A'', [0]), (''B'', [1])] \<and>
   dense_row
     \<lparr>csr_data = [- 128, 1], csr_indices = [0, 1], csr_indptr = [0, 0, 2], csr_shape = (2, 2)\<rparr>
     1 = [- 128, 1] \<and>
   summarize_at_level
     \<lparr>csr_data = [- 128, 1], csr_indices = [0, 1], csr_indptr = [0, 0, 2], csr_shape = (2, 2)\<rparr>
     [(''A;x'', 0), (''B;y'', 1)] [(''K1'', 0), (''K2'', 1)] 1 =
     Inr (\<lparr>csr_data = [1], csr_indices = [1], csr_indptr = [0, 1], csr_shape = (1, 2)\<rparr>,
          [(''B'', 0)])"
  by code_simp

section \<open>Row keys of the taxatable against the keys of the collapsed reference\<close>






section \<open>Properties of the Grouping Summarizer\<close>











section \<open>Properties of \<open>parse_function_db\<close>\<close>

text \<open>
  Claim C9. When the metadata names a function database and one of the three expected
  files is not in the file system, \<open>parse_function_db\<close> returns the empty result: no
  file is opened and no bundle is built. (\<open>glob.glob\<close> only returns paths that exist.)
\<close>

theorem parse_function_db_missing_file:
  assumes "map_of metadata ''function'' = Some func"
    and "\<forall>pattern. \<forall>p \<in> set (glob pattern). fs p \<noteq> None"
    and "suffix \<in> set suffices"
    and "fs (os_path_join database func @ ''-'' @ suffix) = None"
  shows "parse_function_db glob fs metadata database = Inr None"
proof -
  let ?file = "os_path_join database func @ ''-'' @ suffix"
  let ?files = "map (\<lambda>suffix. os_path_join database func @ ''-'' @ suffix) suffices"
  have "?file \<notin> set (glob (os_path_join database func @ ''*''))"
  proof
    assume "?file \<in> set (glob (os_path_join database func @ ''*''))"
    with assms(2) have "fs ?file \<noteq> None" by blast
    with assms(4) show False by simp
  qed
  moreover from assms(3) have "?file \<in> set ?files" by simp
  ultimately have "list_ex (\<lambda>file. file \<notin> set (glob (os_path_join database func @ ''*''))) ?files"
    unfolding list_ex_iff by blast
  with assms(1) show ?thesis
    by (simp add: parse_function_db_def Let_def)
qed

theorem parse_function_db_missing_file_witness:
  "map_of [(''function'', ''kegg'')] ''function'' = Some ''kegg'' \<and>
   ''pathway-annotations.txt'' \<in> set suffices \<and>
   map_of [(''db/kegg-module-annotations.txt'', [[''M1'', ''K00001'']]),
           (''db/kegg-strain2ko.txt'', [[''A'', ''K00001'']])]
     (os_path_join ''db'' ''kegg'' @ ''-'' @ ''pathway-annotations.txt'') = None \<and>
   parse_function_db
     (glob_listing [''db/kegg-module-annotations.txt'', ''db/kegg-strain2ko.txt''])
     (map_of [(''db/kegg-module-annotations.txt'', [[''M1'', ''K00001'']]),
              (''db/kegg-strain2ko.txt'', [[''A'', ''K00001'']])])
     [(''function'', ''kegg'')] ''db'' = Inr None"
proof -
  let ?files = "[(''db/kegg-module-annotations.txt'', [[''M1'', ''K00001'']]),
              (''db/kegg-strain2ko.txt'', [[''A'', ''K00001'']])]"
  have m: "map_of [(''function'', ''kegg'')] ''function'' = Some ''kegg''"
    by simp
  have g: "\<forall>pattern. \<forall>p \<in> set (glob_listing
              [''db/kegg-module-annotations.txt'', ''db/kegg-strain2ko.txt''] pattern).
             map_of ?files p \<noteq> None"
    by (auto simp: glob_listing_def)
  have s: "''pathway-annotations.txt'' \<in> set suffices"
    by (simp add: suffices_def)
  have a: "map_of ?files (os_path_join ''db'' ''kegg'' @ ''-'' @ ''pathway-annotations.txt'') = None"
    by (simp add: os_path_join_def)
  from parse_function_db_missing_file [OF m g s a] m s a show ?thesis by blast
qed

end
